theory Spec2Isabelle
  imports Complex_Main "HOL-Library.Multiset"
begin

section \<open>Time values\<close>

text \<open>
  A \<open>time.Time\<close> read from the store is an absolute instant; it is modelled as the number
  of nanoseconds since a fixed epoch. \<open>Before\<close>, \<open>After\<close> and \<open>Equal\<close> are \<open><\<close>, \<open>>\<close>
  and \<open>=\<close> on instants, and \<open>t.Add(d)\<close> is \<open>t + d\<close>. The range of \<open>time.Time\<close> (hundreds
  of billions of years) is far beyond any instant that can be parsed or stored, so instants
  are unbounded integers.

  A \<open>time.Duration\<close> is an \<open>int64\<close> count of nanoseconds: products of durations wrap
  around, and \<open>Time.Sub\<close> saturates at the smallest and largest duration.
\<close>

type_synonym Time = int
type_synonym Duration = int

definition Minute :: Duration where
  "Minute = 60000000000"

definition minDuration :: Duration where
  "minDuration = - (2 ^ 63)"

definition maxDuration :: Duration where
  "maxDuration = 2 ^ 63 - 1"

definition wrap64 :: "int \<Rightarrow> int" where
  \<comment> \<open>the value an \<open>int64\<close> holds after an operation whose exact result is \<open>x\<close>\<close>
  "wrap64 x = (x + 2 ^ 63) mod 2 ^ 64 - 2 ^ 63"

definition Sub :: "Time \<Rightarrow> Time \<Rightarrow> Duration" where
  \<comment> \<open>\<open>t.Sub(u)\<close>: the difference when an \<open>int64\<close> holds it, else the nearest bound\<close>
  "Sub t u =
     (let d = t - u
      in if d < minDuration then minDuration
         else if d > maxDuration then maxDuration
         else d)"

definition Minutes :: "Duration \<Rightarrow> rat" where
  \<comment> \<open>\<open>d.Minutes()\<close>; the source rounds the quotient to a \<open>float64\<close>, the model keeps it exact\<close>
  "Minutes d = of_int d / of_int Minute"

section \<open>Data model (models/models.go)\<close>

text \<open>
  The stored entities carry the identifier of the embedded \<open>gorm.Model\<close>; its three
  bookkeeping timestamps are never read by the services and are left out.
\<close>

record Event =
  ID :: nat
  Title :: string
  Description :: string
  OrganizerId :: nat
  DurationMinutes :: int

record TimeSlot =
  ID :: nat
  EventID :: nat
  StartTime :: Time
  EndTime :: Time

record User =
  ID :: nat
  Name :: string
  Email :: string
  Timezone :: string

record UserAvailability =
  ID :: nat
  UserID :: nat
  EventID :: nat
  StartTime :: Time
  EndTime :: Time

text \<open>
  \<open>MatchingPercentage\<close> is a \<open>float64\<close> in the source. The model keeps the exact quotient,
  so a statement about it is a statement about the number the source rounds.
\<close>

record TimeSlotRecommendation =
  TimeSlot :: TimeSlot
  MatchingUsers :: "User list"
  NonMatchingUsers :: "User list"
  MatchingPercentage :: rat
  EventDuration :: int
  StartOptions :: "Time list"

section \<open>The storage collaborators\<close>

text \<open>
  \<open>RecommendationService\<close> holds three repository interfaces and calls four of their
  methods. Each method either fails with an error or returns the rows it found.
\<close>

datatype error = ErrRecordNotFound | ErrOther string

record RecommendationService =
  eventRepo_FindByID :: "nat \<Rightarrow> error + Event"
  timeSlotRepo_FindByEventID :: "nat \<Rightarrow> error + TimeSlot list"
  availabilityRepo_FindByEvent :: "nat \<Rightarrow> error + UserAvailability list"
  availabilityRepo_FindAllUsersByEvent :: "nat \<Rightarrow> error + User list"

section \<open>GetRecommendations (services/services.go)\<close>

subsection \<open>Grouping the availabilities by user\<close>

text \<open>
  Lines 195 to 198. A Go map read at a missing key yields the nil slice, so the map is a
  total function whose default is the empty list.
\<close>

definition availabilityMap_of ::
  "UserAvailability list \<Rightarrow> nat \<Rightarrow> UserAvailability list" where
  "availabilityMap_of allAvailabilities =
     fold (\<lambda>avail m. m(UserID avail := m (UserID avail) @ [avail]))
          allAvailabilities (\<lambda>_. [])"

subsection \<open>One candidate start\<close>

text \<open>Lines 226 to 232: the scan of one user's intervals, left at the first hit.\<close>

fun available :: "UserAvailability list \<Rightarrow> Time \<Rightarrow> Time \<Rightarrow> bool" where
  "available [] startTime endTime = False"
| "available (avail # availabilities) startTime endTime =
     (if \<not> startTime < UserAvailability.StartTime avail
         \<and> \<not> endTime > UserAvailability.EndTime avail
      then True
      else available availabilities startTime endTime)"

text \<open>Lines 224 to 238: every user is appended to one of the two lists.\<close>

fun split_users ::
  "(nat \<Rightarrow> UserAvailability list) \<Rightarrow> Time \<Rightarrow> Time \<Rightarrow> User list
     \<Rightarrow> User list \<times> User list \<Rightarrow> User list \<times> User list" where
  "split_users availabilityMap startTime endTime [] acc = acc"
| "split_users availabilityMap startTime endTime (user # users) acc =
     (if available (availabilityMap (User.ID user)) startTime endTime
      then split_users availabilityMap startTime endTime users (fst acc @ [user], snd acc)
      else split_users availabilityMap startTime endTime users (fst acc, snd acc @ [user]))"

definition endTime_of :: "int \<Rightarrow> Time \<Rightarrow> Time" where
  \<comment> \<open>line 219: \<open>startTime.Add(time.Duration(durationMinutes) * time.Minute)\<close>\<close>
  "endTime_of durationMinutes startTime = startTime + wrap64 (wrap64 durationMinutes * Minute)"

definition matchingUsers_at ::
  "(nat \<Rightarrow> UserAvailability list) \<Rightarrow> User list \<Rightarrow> int \<Rightarrow> Time \<Rightarrow> User list" where
  "matchingUsers_at availabilityMap users durationMinutes startTime =
     fst (split_users availabilityMap startTime (endTime_of durationMinutes startTime)
            users ([], []))"

definition nonMatchingUsers_at ::
  "(nat \<Rightarrow> UserAvailability list) \<Rightarrow> User list \<Rightarrow> int \<Rightarrow> Time \<Rightarrow> User list" where
  "nonMatchingUsers_at availabilityMap users durationMinutes startTime =
     snd (split_users availabilityMap startTime (endTime_of durationMinutes startTime)
            users ([], []))"

subsection \<open>The walk over the candidate starts of one slot\<close>

text \<open>
  The three variables declared at lines 204 to 206, and the update of lines 241 to 248.
\<close>

record best =
  bestMatchingUsers :: "User list"
  bestNonMatchingUsers :: "User list"
  startOptions :: "Time list"

definition no_best :: best where
  "no_best = \<lparr>bestMatchingUsers = [], bestNonMatchingUsers = [], startOptions = []\<rparr>"

definition try_start ::
  "(nat \<Rightarrow> UserAvailability list) \<Rightarrow> User list \<Rightarrow> int \<Rightarrow> Time \<Rightarrow> best \<Rightarrow> best" where
  "try_start availabilityMap users durationMinutes startTime b =
     (let matchingUsers = matchingUsers_at availabilityMap users durationMinutes startTime;
          nonMatchingUsers = nonMatchingUsers_at availabilityMap users durationMinutes startTime
      in if length matchingUsers > length (bestMatchingUsers b)
         then \<lparr>bestMatchingUsers = matchingUsers,
               bestNonMatchingUsers = nonMatchingUsers,
               startOptions = [startTime]\<rparr>
         else if length matchingUsers = length (bestMatchingUsers b) \<and> length matchingUsers > 0
         then b\<lparr>startOptions := startOptions b @ [startTime]\<rparr>
         else b)"

text \<open>
  The header of the loop at line 218 fixes the instants the body is run at: from the slot's
  start, in steps of 15 minutes, while the instant is not after \<open>maxStartTime\<close>. The body
  assigns to neither of the two, so the loop is its body, \<open>try_start\<close>, run at these
  instants in turn (\<open>walk\<close>). The list is finite: the loop always ends.
\<close>

function candidates :: "Time \<Rightarrow> Time \<Rightarrow> Time list" where
  "candidates startTime maxStartTime =
     (if startTime > maxStartTime then []
      else startTime # candidates (startTime + 15 * Minute) maxStartTime)"
  by pat_completeness auto
termination
  by (relation "measure (\<lambda>(startTime, maxStartTime). nat (maxStartTime - startTime + 1))")
     (auto simp: Minute_def)

declare candidates.simps [simp del]

definition maxStartTime_of :: "int \<Rightarrow> TimeSlot \<Rightarrow> Time" where
  \<comment> \<open>line 215: \<open>slot.EndTime.Add(-time.Duration(durationMinutes) * time.Minute)\<close>\<close>
  "maxStartTime_of durationMinutes slot =
     TimeSlot.EndTime slot + wrap64 (wrap64 (- wrap64 durationMinutes) * Minute)"

definition walk ::
  "(nat \<Rightarrow> UserAvailability list) \<Rightarrow> User list \<Rightarrow> int \<Rightarrow> TimeSlot \<Rightarrow> best" where
  "walk availabilityMap users durationMinutes slot =
     fold (try_start availabilityMap users durationMinutes)
          (candidates (TimeSlot.StartTime slot) (maxStartTime_of durationMinutes slot))
          no_best"

subsection \<open>One slot\<close>

text \<open>
  The body of the loop at line 203: \<open>None\<close> is either of the two \<open>continue\<close> statements,
  \<open>Some r\<close> is the record appended at line 260.

  Line 210 compares two \<open>float64\<close> values, the minutes of the span and the converted
  duration; \<open>too_short\<close> compares the exact numbers. The two can differ only when the span
  falls short of the duration by less than the rounding error, and lemma
  \<open>short_span_no_start\<close> below shows that such a slot has no candidate start: it yields
  nothing on either side of the test.
\<close>

definition too_short :: "int \<Rightarrow> TimeSlot \<Rightarrow> bool" where
  \<comment> \<open>lines 209 and 210\<close>
  "too_short durationMinutes slot \<longleftrightarrow>
     Minutes (Sub (TimeSlot.EndTime slot) (TimeSlot.StartTime slot)) < of_int durationMinutes"

definition recommend_slot ::
  "(nat \<Rightarrow> UserAvailability list) \<Rightarrow> User list \<Rightarrow> int \<Rightarrow> TimeSlot
     \<Rightarrow> TimeSlotRecommendation option" where
  "recommend_slot availabilityMap users durationMinutes slot =
     (if too_short durationMinutes slot then None
      else let b = walk availabilityMap users durationMinutes slot
           in if length (bestMatchingUsers b) = 0 then None
              else Some \<lparr>TimeSlot = slot,
                         MatchingUsers = bestMatchingUsers b,
                         NonMatchingUsers = bestNonMatchingUsers b,
                         MatchingPercentage =
                           of_nat (length (bestMatchingUsers b)) / of_nat (length users) * 100,
                         EventDuration = durationMinutes,
                         StartOptions = startOptions b\<rparr>)"

text \<open>Lines 200 to 268: the recommendations in the order of the slots that yield one.\<close>

fun slot_loop ::
  "(nat \<Rightarrow> UserAvailability list) \<Rightarrow> User list \<Rightarrow> int \<Rightarrow> TimeSlot list
     \<Rightarrow> TimeSlotRecommendation list" where
  "slot_loop availabilityMap users durationMinutes [] = []"
| "slot_loop availabilityMap users durationMinutes (slot # timeSlots) =
     (case recommend_slot availabilityMap users durationMinutes slot of
        None \<Rightarrow> slot_loop availabilityMap users durationMinutes timeSlots
      | Some r \<Rightarrow> r # slot_loop availabilityMap users durationMinutes timeSlots)"

subsection \<open>Ranking\<close>

text \<open>
  Lines 271 to 273 hand the slice to \<open>sort.Slice\<close> of the Go standard library with the
  comparison below. The library promises a rearrangement of the slice in which no element
  is less than one before it, and states that the sort is not stable: which of the
  rearrangements that meet this is produced is left to the library. \<open>sort_Slice less_fn xs ys\<close>
  holds of every \<open>ys\<close> the call may leave in the slice that held \<open>xs\<close>.
\<close>

definition less_percentage :: "TimeSlotRecommendation \<Rightarrow> TimeSlotRecommendation \<Rightarrow> bool" where
  "less_percentage ri rj \<longleftrightarrow> MatchingPercentage ri > MatchingPercentage rj"

definition sort_Slice :: "('a \<Rightarrow> 'a \<Rightarrow> bool) \<Rightarrow> 'a list \<Rightarrow> 'a list \<Rightarrow> bool" where
  "sort_Slice less_fn xs ys \<longleftrightarrow>
     mset ys = mset xs \<and> sorted_wrt (\<lambda>a b. \<not> less_fn b a) ys"

subsection \<open>The whole call\<close>

text \<open>
  \<open>GetRecommendations s eventID result\<close> holds of every result the call can return:
  \<open>Inl err\<close> is \<open>(nil, err)\<close>, \<open>Inr recommendations\<close> is \<open>(recommendations, nil)\<close>.
\<close>

definition GetRecommendations ::
  "RecommendationService \<Rightarrow> nat \<Rightarrow> error + TimeSlotRecommendation list \<Rightarrow> bool" where
  "GetRecommendations s eventID result \<longleftrightarrow>
     (case eventRepo_FindByID s eventID of
        Inl err \<Rightarrow> result = Inl err
      | Inr event \<Rightarrow>
     (case timeSlotRepo_FindByEventID s eventID of
        Inl err \<Rightarrow> result = Inl err
      | Inr timeSlots \<Rightarrow>
     (case availabilityRepo_FindByEvent s eventID of
        Inl err \<Rightarrow> result = Inl err
      | Inr allAvailabilities \<Rightarrow>
     (case availabilityRepo_FindAllUsersByEvent s eventID of
        Inl err \<Rightarrow> result = Inl err
      | Inr users \<Rightarrow>
     (case result of
        Inl err \<Rightarrow> False
      | Inr recommendations \<Rightarrow>
          sort_Slice less_percentage
            (slot_loop (availabilityMap_of allAvailabilities) users
               (DurationMinutes event) timeSlots)
            recommendations)))))"

subsection \<open>Derived notions used to state the properties\<close>

text \<open>
  \<open>fetched\<close> names the four values a call worked with: every collaborator call succeeded
  and returned them.
\<close>

definition fetched ::
  "RecommendationService \<Rightarrow> nat \<Rightarrow> Event \<Rightarrow> TimeSlot list \<Rightarrow> UserAvailability list
     \<Rightarrow> User list \<Rightarrow> bool" where
  "fetched s eventID event timeSlots allAvailabilities users \<longleftrightarrow>
     eventRepo_FindByID s eventID = Inr event
     \<and> timeSlotRepo_FindByEventID s eventID = Inr timeSlots
     \<and> availabilityRepo_FindByEvent s eventID = Inr allAvailabilities
     \<and> availabilityRepo_FindAllUsersByEvent s eventID = Inr users"

text \<open>
  \<open>best_at m us d t0 post\<close> is the value of the three loop variables when \<open>t0\<close> was the last
  candidate to raise the count and the candidates \<open>post\<close> were tried after it.
\<close>

definition best_at ::
  "(nat \<Rightarrow> UserAvailability list) \<Rightarrow> User list \<Rightarrow> int \<Rightarrow> Time \<Rightarrow> Time list \<Rightarrow> best" where
  "best_at m us d t0 post =
     \<lparr>bestMatchingUsers = matchingUsers_at m us d t0,
      bestNonMatchingUsers = nonMatchingUsers_at m us d t0,
      startOptions = t0 # filter (\<lambda>t. length (matchingUsers_at m us d t)
                                        = length (matchingUsers_at m us d t0)) post\<rparr>"

section \<open>Two concrete runs\<close>

text \<open>
  The first service knows three events. Event 1 lasts 60 minutes and has four slots: 10:00 to
  12:00, 13:00 to 13:30 (too short), 14:00 to 15:00 and 16:00 to 17:00 (nobody is free).
  A is free 10:30 to 11:30, B 10:00 to 12:00 and 14:00 to 15:00, C 10:00 to 11:00. Event 2
  has the same slots and no availability at all. For event 3 the event is found and the
  fetch of its slots fails. Every other event is unknown.
\<close>

definition clock :: "int \<Rightarrow> int \<Rightarrow> Time" where
  "clock h m = (h * 60 + m) * Minute"

definition ex_userA :: User where
  "ex_userA = \<lparr>User.ID = 1, Name = ''A'', Email = ''a@example.org'', Timezone = ''UTC''\<rparr>"

definition ex_userB :: User where
  "ex_userB = \<lparr>User.ID = 2, Name = ''B'', Email = ''b@example.org'', Timezone = ''UTC''\<rparr>"

definition ex_userC :: User where
  "ex_userC = \<lparr>User.ID = 3, Name = ''C'', Email = ''c@example.org'', Timezone = ''UTC''\<rparr>"

definition ex_event :: "nat \<Rightarrow> int \<Rightarrow> Event" where
  "ex_event i d = \<lparr>Event.ID = i, Title = ''Planning'', Description = [], OrganizerId = 1,
                   DurationMinutes = d\<rparr>"

definition ex_slot :: "nat \<Rightarrow> Time \<Rightarrow> Time \<Rightarrow> TimeSlot" where
  "ex_slot i t u = \<lparr>TimeSlot.ID = i, EventID = 1, StartTime = t, EndTime = u\<rparr>"

definition ex_avail :: "nat \<Rightarrow> User \<Rightarrow> Time \<Rightarrow> Time \<Rightarrow> UserAvailability" where
  "ex_avail i u t v = \<lparr>UserAvailability.ID = i, UserID = User.ID u, EventID = 1,
                       StartTime = t, EndTime = v\<rparr>"

definition ex_timeSlots :: "TimeSlot list" where
  "ex_timeSlots =
     [ex_slot 1 (clock 10 0) (clock 12 0),
      ex_slot 2 (clock 13 0) (clock 13 30),
      ex_slot 3 (clock 14 0) (clock 15 0),
      ex_slot 4 (clock 16 0) (clock 17 0)]"

definition ex_availabilities :: "UserAvailability list" where
  "ex_availabilities =
     [ex_avail 1 ex_userA (clock 10 30) (clock 11 30),
      ex_avail 2 ex_userB (clock 10 0) (clock 12 0),
      ex_avail 3 ex_userC (clock 10 0) (clock 11 0),
      ex_avail 4 ex_userB (clock 14 0) (clock 15 0)]"

definition ex_users :: "User list" where
  "ex_users = [ex_userA, ex_userB, ex_userC]"

definition ex_service :: RecommendationService where
  "ex_service =
     \<lparr>eventRepo_FindByID = (\<lambda>i. if i = 1 then Inr (ex_event 1 60)
                                 else if i = 2 then Inr (ex_event 2 30)
                                 else if i = 3 then Inr (ex_event 3 45)
                                 else Inl ErrRecordNotFound),
      timeSlotRepo_FindByEventID = (\<lambda>i. if i = 3 then Inl (ErrOther ''connection lost'')
                                         else Inr ex_timeSlots),
      availabilityRepo_FindByEvent = (\<lambda>i. if i = 1 then Inr ex_availabilities else Inr []),
      availabilityRepo_FindAllUsersByEvent = (\<lambda>i. if i = 1 then Inr ex_users else Inr [])\<rparr>"

definition ex_rec1 :: TimeSlotRecommendation where
  "ex_rec1 =
     \<lparr>TimeSlot = ex_slot 1 (clock 10 0) (clock 12 0),
      MatchingUsers = [ex_userB, ex_userC],
      NonMatchingUsers = [ex_userA],
      MatchingPercentage = 200 / 3,
      EventDuration = 60,
      StartOptions = [clock 10 0, clock 10 30]\<rparr>"

definition ex_rec3 :: TimeSlotRecommendation where
  "ex_rec3 =
     \<lparr>TimeSlot = ex_slot 3 (clock 14 0) (clock 15 0),
      MatchingUsers = [ex_userB],
      NonMatchingUsers = [ex_userA, ex_userC],
      MatchingPercentage = 100 / 3,
      EventDuration = 60,
      StartOptions = [clock 14 0]\<rparr>"

text \<open>
  The second service has thirteen slots of one hour, from 0:00 to 13:00, for a meeting of
  60 minutes. A is free the whole time and B only during the last hour, so the slots yield
  twelve recommendations at 50 percent followed by one at 100 percent. \<open>tie_returned\<close> lists
  them in the order 12, 6, 2, 3, 4, 5, 0, 7, 8, 9, 10, 11, 1. That is the order in which
  \<open>pdqsort_func\<close>, the routine behind \<open>sort.Slice\<close> in the Go release the repository is
  built with (1.24), leaves a slice of this shape: with more than twelve elements it picks
  the element at index 6 as pivot and swaps it to the front, swaps the element at index 1
  with the last one, and puts the pivot back at index 1.
\<close>

definition tie_slot :: "nat \<Rightarrow> TimeSlot" where
  "tie_slot i = ex_slot (Suc i) (clock (int i) 0) (clock (int i + 1) 0)"

definition tie_timeSlots :: "TimeSlot list" where
  "tie_timeSlots = map tie_slot [0, 1, 2, 3, 4, 5, 6, 7, 8, 9, 10, 11, 12]"

definition tie_availabilities :: "UserAvailability list" where
  "tie_availabilities =
     [ex_avail 1 ex_userA (clock 0 0) (clock 13 0),
      ex_avail 2 ex_userB (clock 12 0) (clock 13 0)]"

definition tie_users :: "User list" where
  "tie_users = [ex_userA, ex_userB]"

definition tie_service :: RecommendationService where
  "tie_service =
     \<lparr>eventRepo_FindByID = (\<lambda>i. Inr (ex_event i 60)),
      timeSlotRepo_FindByEventID = (\<lambda>i. Inr tie_timeSlots),
      availabilityRepo_FindByEvent = (\<lambda>i. Inr tie_availabilities),
      availabilityRepo_FindAllUsersByEvent = (\<lambda>i. Inr tie_users)\<rparr>"

definition tie_rec :: "nat \<Rightarrow> TimeSlotRecommendation" where
  "tie_rec i =
     \<lparr>TimeSlot = tie_slot i,
      MatchingUsers = (if i = 12 then [ex_userA, ex_userB] else [ex_userA]),
      NonMatchingUsers = (if i = 12 then [] else [ex_userB]),
      MatchingPercentage = (if i = 12 then 100 else 50),
      EventDuration = 60,
      StartOptions = [clock (int i) 0]\<rparr>"

definition tie_produced :: "TimeSlotRecommendation list" where
  "tie_produced = map tie_rec [0, 1, 2, 3, 4, 5, 6, 7, 8, 9, 10, 11, 12]"

definition tie_returned :: "TimeSlotRecommendation list" where
  "tie_returned = map tie_rec [12, 6, 2, 3, 4, 5, 0, 7, 8, 9, 10, 11, 1]"

section \<open>Durations: wrap-around and saturation\<close>

lemma wrap64_id: "- (2 ^ 63) \<le> x \<Longrightarrow> x < 2 ^ 63 \<Longrightarrow> wrap64 x = x"
  by (simp add: wrap64_def)

lemma wrap64_upper: "wrap64 x < 2 ^ 63"
proof -
  have "(x + 2 ^ 63) mod 2 ^ 64 < (2 ^ 64 :: int)"
    by (rule pos_mod_bound) simp
  then show ?thesis
    by (simp add: wrap64_def)
qed

lemma wrap64_cong: "x mod 2 ^ 64 = y mod 2 ^ 64 \<Longrightarrow> wrap64 x = wrap64 y"
  unfolding wrap64_def by (metis mod_add_left_eq)

lemma wrap64_mod: "wrap64 x mod 2 ^ 64 = x mod 2 ^ 64"
proof -
  have "wrap64 x mod 2 ^ 64 = ((x + 2 ^ 63) mod 2 ^ 64 - 2 ^ 63) mod 2 ^ 64"
    by (simp add: wrap64_def)
  also have "\<dots> = ((x + 2 ^ 63) - 2 ^ 63) mod 2 ^ 64"
    by (rule mod_diff_left_eq)
  finally show ?thesis by simp
qed

lemma wrap64_mult_left: "wrap64 (wrap64 a * b) = wrap64 (a * b)"
  by (rule wrap64_cong) (metis mod_mult_left_eq wrap64_mod)

lemma wrap64_neg: "wrap64 (- wrap64 a) = wrap64 (- a)"
  by (rule wrap64_cong) (metis mod_minus_eq wrap64_mod)

lemma endTime_of_eq: "endTime_of d t = t + wrap64 (d * Minute)"
  by (simp add: endTime_of_def wrap64_mult_left)

lemma maxStartTime_of_eq:
  "maxStartTime_of d slot = TimeSlot.EndTime slot + wrap64 (- d * Minute)"
proof -
  have "wrap64 (wrap64 (- wrap64 d) * Minute) = wrap64 (wrap64 (- d) * Minute)"
    by (simp add: wrap64_neg)
  also have "\<dots> = wrap64 (- d * Minute)"
    by (rule wrap64_mult_left)
  finally show ?thesis
    by (simp add: maxStartTime_of_def)
qed

lemma Sub_le_max: "Sub t u \<le> maxDuration"
  by (simp add: Sub_def Let_def minDuration_def maxDuration_def)

text \<open>
  When the product \<open>d * Minute\<close> does not exceed the largest duration, the last start the
  loop admits leaves room for the meeting, whatever the sign of \<open>d\<close> and whether or not the
  negated product wraps.
\<close>

lemma maxStartTime_room:
  assumes "d * Minute \<le> maxDuration"
  shows "maxStartTime_of d slot + d * Minute \<le> TimeSlot.EndTime slot"
proof -
  from assms have lo: "- (2 ^ 63) \<le> - d * Minute"
    by (simp add: maxDuration_def)
  have "wrap64 (- d * Minute) \<le> - d * Minute"
  proof (cases "- d * Minute < 2 ^ 63")
    case True
    then show ?thesis using lo by (simp add: wrap64_id)
  next
    case False
    then show ?thesis using wrap64_upper [of "- d * Minute"] by linarith
  qed
  then show ?thesis
    by (simp add: maxStartTime_of_eq)
qed

text \<open>
  Hence a slot whose span is short has no candidate start at all, whether or not the test
  of line 210 lets it through.
\<close>

lemma short_span_no_start:
  assumes "TimeSlot.EndTime slot - TimeSlot.StartTime slot < d * Minute"
    and "d * Minute \<le> maxDuration"
  shows "maxStartTime_of d slot < TimeSlot.StartTime slot"
  using maxStartTime_room [OF assms(2), of slot] assms(1) by linarith

lemma not_too_short_iff:
  "\<not> too_short d slot \<longleftrightarrow>
     d * Minute \<le> Sub (TimeSlot.EndTime slot) (TimeSlot.StartTime slot)"
proof -
  let ?span = "Sub (TimeSlot.EndTime slot) (TimeSlot.StartTime slot)"
  have pos: "(0::rat) < of_int Minute" by (simp add: Minute_def)
  have "(of_int ?span / of_int Minute < (of_int d :: rat))
        \<longleftrightarrow> (of_int ?span :: rat) < of_int d * of_int Minute"
    using pos by (simp add: pos_divide_less_eq)
  also have "\<dots> \<longleftrightarrow> ?span < d * Minute"
    by (metis of_int_less_iff of_int_mult)
  finally show ?thesis
    by (auto simp: too_short_def Minutes_def)
qed

lemma not_too_short_product:
  "\<not> too_short d slot \<Longrightarrow> d * Minute \<le> maxDuration"
  using Sub_le_max [of "TimeSlot.EndTime slot" "TimeSlot.StartTime slot"]
  by (simp add: not_too_short_iff)

lemma not_too_short_endTime:
  assumes "\<not> too_short d slot" and "0 < d"
  shows "endTime_of d t = t + d * Minute"
proof -
  have "d * Minute \<le> maxDuration"
    using assms(1) by (rule not_too_short_product)
  moreover have "0 \<le> d * Minute"
    using assms(2) by (simp add: Minute_def)
  ultimately have "wrap64 (d * Minute) = d * Minute"
    by (intro wrap64_id) (simp_all add: maxDuration_def)
  then show ?thesis
    by (simp add: endTime_of_eq)
qed

section \<open>The grouping and the test of one candidate\<close>

lemma availabilityMap_fold:
  "fold (\<lambda>avail m. m(UserID avail := m (UserID avail) @ [avail])) as m0 uid
     = m0 uid @ filter (\<lambda>a. UserID a = uid) as"
  by (induction as arbitrary: m0) auto

lemma availabilityMap_of_eq:
  "availabilityMap_of allAvailabilities uid = filter (\<lambda>a. UserID a = uid) allAvailabilities"
  by (simp add: availabilityMap_of_def availabilityMap_fold)

lemma available_iff:
  "available availabilities startTime endTime \<longleftrightarrow>
     (\<exists>avail \<in> set availabilities.
        UserAvailability.StartTime avail \<le> startTime \<and> endTime \<le> UserAvailability.EndTime avail)"
  by (induction availabilities) auto

lemma split_users_eq:
  "split_users m s e users acc =
     (fst acc @ filter (\<lambda>u. available (m (User.ID u)) s e) users,
      snd acc @ filter (\<lambda>u. \<not> available (m (User.ID u)) s e) users)"
  by (induction users arbitrary: acc) auto

lemma matchingUsers_at_eq:
  "matchingUsers_at m users d t =
     filter (\<lambda>u. available (m (User.ID u)) t (endTime_of d t)) users"
  by (simp add: matchingUsers_at_def split_users_eq)

lemma nonMatchingUsers_at_eq:
  "nonMatchingUsers_at m users d t =
     filter (\<lambda>u. \<not> available (m (User.ID u)) t (endTime_of d t)) users"
  by (simp add: nonMatchingUsers_at_def split_users_eq)

lemma matching_partition:
  "set (matchingUsers_at m users d t) \<inter> set (nonMatchingUsers_at m users d t) = {}"
  "set (matchingUsers_at m users d t) \<union> set (nonMatchingUsers_at m users d t) = set users"
  "length (matchingUsers_at m users d t) + length (nonMatchingUsers_at m users d t)
     = length users"
  by (auto simp: matchingUsers_at_eq nonMatchingUsers_at_eq sum_length_filter_compl)

section \<open>The candidate starts\<close>

lemma candidates_empty: "maxStartTime < startTime \<Longrightarrow> candidates startTime maxStartTime = []"
  by (simp add: candidates.simps)

lemma candidates_bounds:
  "t \<in> set (candidates startTime maxStartTime) \<Longrightarrow>
     t \<le> maxStartTime \<and> (\<exists>k::nat. t = startTime + int k * (15 * Minute))"
proof (induction startTime maxStartTime rule: candidates.induct)
  case (1 startTime maxStartTime)
  show ?case
  proof (cases "startTime > maxStartTime")
    case True
    with "1.prems" show ?thesis by (simp add: candidates.simps)
  next
    case False
    with "1.prems" have "t = startTime \<or> t \<in> set (candidates (startTime + 15 * Minute) maxStartTime)"
      by (subst (asm) candidates.simps) auto
    then show ?thesis
    proof
      assume "t = startTime"
      then have "t = startTime + int 0 * (15 * Minute)" by simp
      with False \<open>t = startTime\<close> show ?thesis by (metis not_less)
    next
      assume "t \<in> set (candidates (startTime + 15 * Minute) maxStartTime)"
      with "1.IH" False obtain k :: nat
        where le: "t \<le> maxStartTime" and k: "t = startTime + 15 * Minute + int k * (15 * Minute)"
        by auto
      from k have "t = startTime + int (Suc k) * (15 * Minute)"
        by (simp add: algebra_simps)
      with le show ?thesis by blast
    qed
  qed
qed

lemma candidates_lower:
  "t \<in> set (candidates startTime maxStartTime) \<Longrightarrow> startTime \<le> t"
proof -
  assume "t \<in> set (candidates startTime maxStartTime)"
  then obtain k :: nat where "t = startTime + int k * (15 * Minute)"
    using candidates_bounds by blast
  then show ?thesis by (simp add: Minute_def)
qed

lemma candidates_sorted: "sorted_wrt (<) (candidates startTime maxStartTime)"
proof (induction startTime maxStartTime rule: candidates.induct)
  case (1 startTime maxStartTime)
  show ?case
  proof (cases "startTime > maxStartTime")
    case True
    then show ?thesis by (simp add: candidates.simps)
  next
    case False
    have "\<forall>t \<in> set (candidates (startTime + 15 * Minute) maxStartTime). startTime < t"
      using candidates_lower [of _ "startTime + 15 * Minute" maxStartTime]
      by (fastforce simp: Minute_def)
    with "1.IH" False show ?thesis
      by (subst candidates.simps) simp
  qed
qed

section \<open>The walk keeps the earliest best candidate\<close>

lemma try_start_no_best:
  "try_start m us d t no_best =
     (if 0 < length (matchingUsers_at m us d t) then best_at m us d t [] else no_best)"
  by (simp add: try_start_def no_best_def best_at_def Let_def)

lemma try_start_best_at:
  assumes "0 < length (matchingUsers_at m us d t0)"
  shows "try_start m us d t (best_at m us d t0 post) =
     (if length (matchingUsers_at m us d t0) < length (matchingUsers_at m us d t)
      then best_at m us d t []
      else best_at m us d t0 (post @ [t]))"
  using assms by (auto simp: try_start_def best_at_def Let_def)

lemma fold_try_start_zero:
  "\<forall>t \<in> set cs. length (matchingUsers_at m us d t) = 0 \<Longrightarrow>
     fold (try_start m us d) cs no_best = no_best"
proof (induction cs rule: rev_induct)
  case Nil
  show ?case by simp
next
  case (snoc c cs)
  then show ?case by (simp add: try_start_no_best)
qed

lemma fold_try_start_some:
  "\<exists>t \<in> set cs. 0 < length (matchingUsers_at m us d t) \<Longrightarrow>
     \<exists>pre t0 post. cs = pre @ t0 # post
       \<and> (\<forall>t \<in> set pre. length (matchingUsers_at m us d t) < length (matchingUsers_at m us d t0))
       \<and> (\<forall>t \<in> set post. length (matchingUsers_at m us d t) \<le> length (matchingUsers_at m us d t0))
       \<and> 0 < length (matchingUsers_at m us d t0)
       \<and> fold (try_start m us d) cs no_best = best_at m us d t0 post"
proof (induction cs rule: rev_induct)
  case Nil
  then show ?case by simp
next
  case (snoc c cs)
  let ?n = "\<lambda>t. length (matchingUsers_at m us d t)"
  show ?case
  proof (cases "\<exists>t \<in> set cs. 0 < ?n t")
    case False
    then have zero: "\<forall>t \<in> set cs. ?n t = 0" by simp
    with snoc.prems have c: "0 < ?n c" by auto
    have "fold (try_start m us d) (cs @ [c]) no_best = best_at m us d c []"
      using zero c by (simp add: fold_try_start_zero try_start_no_best)
    moreover have "\<forall>t \<in> set cs. ?n t < ?n c"
      using zero c by simp
    ultimately show ?thesis
      using c by (intro exI [of _ cs] exI [of _ c] exI [of _ "[]"]) simp
  next
    case True
    with snoc.IH obtain pre t0 post where
      cs: "cs = pre @ t0 # post"
      and pre: "\<forall>t \<in> set pre. ?n t < ?n t0"
      and post: "\<forall>t \<in> set post. ?n t \<le> ?n t0"
      and pos: "0 < ?n t0"
      and b: "fold (try_start m us d) cs no_best = best_at m us d t0 post"
      by blast
    show ?thesis
    proof (cases "?n t0 < ?n c")
      case True
      have "fold (try_start m us d) (cs @ [c]) no_best = best_at m us d c []"
        using b pos True by (simp add: try_start_best_at)
      moreover have "\<forall>t \<in> set cs. ?n t < ?n c"
        using cs pre post True by fastforce
      moreover have "0 < ?n c" using pos True by linarith
      ultimately show ?thesis
        by (intro exI [of _ cs] exI [of _ c] exI [of _ "[]"]) simp
    next
      case False
      have "fold (try_start m us d) (cs @ [c]) no_best = best_at m us d t0 (post @ [c])"
        using b pos False by (simp add: try_start_best_at)
      moreover have "\<forall>t \<in> set (post @ [c]). ?n t \<le> ?n t0"
        using post False by auto
      moreover have "cs @ [c] = pre @ t0 # (post @ [c])"
        using cs by simp
      ultimately show ?thesis
        using pre pos by blast
    qed
  qed
qed

section \<open>One slot, all slots, the whole call\<close>

lemma walk_empty:
  "maxStartTime_of d slot < TimeSlot.StartTime slot \<Longrightarrow> walk m us d slot = no_best"
  by (simp add: walk_def candidates_empty)

lemma walk_cases:
  fixes m us d slot
  defines "cs \<equiv> candidates (TimeSlot.StartTime slot) (maxStartTime_of d slot)"
  shows "walk m us d slot = no_best
           \<and> (\<forall>t \<in> set cs. matchingUsers_at m us d t = [])
         \<or> (\<exists>pre t0 post. cs = pre @ t0 # post
              \<and> (\<forall>t \<in> set pre. length (matchingUsers_at m us d t)
                                 < length (matchingUsers_at m us d t0))
              \<and> (\<forall>t \<in> set post. length (matchingUsers_at m us d t)
                                 \<le> length (matchingUsers_at m us d t0))
              \<and> 0 < length (matchingUsers_at m us d t0)
              \<and> walk m us d slot = best_at m us d t0 post)"
proof (cases "\<exists>t \<in> set cs. 0 < length (matchingUsers_at m us d t)")
  case True
  then show ?thesis
    unfolding walk_def cs_def [symmetric]
    by (intro disjI2 fold_try_start_some)
next
  case False
  then have "\<forall>t \<in> set cs. length (matchingUsers_at m us d t) = 0" by simp
  then show ?thesis
    unfolding walk_def cs_def [symmetric]
    by (simp add: fold_try_start_zero)
qed

lemma recommend_slot_SomeD:
  assumes "recommend_slot m us d slot = Some r"
  shows "\<not> too_short d slot"
    and "bestMatchingUsers (walk m us d slot) \<noteq> []"
    and "r = \<lparr>TimeSlot = slot,
              MatchingUsers = bestMatchingUsers (walk m us d slot),
              NonMatchingUsers = bestNonMatchingUsers (walk m us d slot),
              MatchingPercentage =
                of_nat (length (bestMatchingUsers (walk m us d slot))) / of_nat (length us) * 100,
              EventDuration = d,
              StartOptions = startOptions (walk m us d slot)\<rparr>"
  using assms by (auto simp: recommend_slot_def Let_def split: if_splits)

lemma recommend_slot_best:
  assumes "recommend_slot m us d slot = Some r"
  obtains pre t0 post where
    "candidates (TimeSlot.StartTime slot) (maxStartTime_of d slot) = pre @ t0 # post"
    "\<forall>t \<in> set pre. length (matchingUsers_at m us d t) < length (matchingUsers_at m us d t0)"
    "\<forall>t \<in> set post. length (matchingUsers_at m us d t) \<le> length (matchingUsers_at m us d t0)"
    "0 < length (matchingUsers_at m us d t0)"
    "walk m us d slot = best_at m us d t0 post"
proof -
  from recommend_slot_SomeD(2) [OF assms] have "walk m us d slot \<noteq> no_best"
    by (auto simp: no_best_def)
  with walk_cases [of m us d slot] that show thesis by blast
qed

lemma slot_loop_set:
  "r \<in> set (slot_loop m us d timeSlots) \<longleftrightarrow>
     (\<exists>slot \<in> set timeSlots. recommend_slot m us d slot = Some r)"
  by (induction timeSlots) (auto split: option.splits)

lemma GetRecommendations_InrD:
  assumes "GetRecommendations s eventID (Inr recommendations)"
    and "fetched s eventID event timeSlots allAvailabilities users"
  shows "sort_Slice less_percentage
           (slot_loop (availabilityMap_of allAvailabilities) users (DurationMinutes event)
              timeSlots)
           recommendations"
  using assms by (simp add: GetRecommendations_def fetched_def)


lemma sort_Slice_set: "sort_Slice less_fn xs ys \<Longrightarrow> set ys = set xs"
  by (auto simp: sort_Slice_def dest: mset_eq_setD)

lemma emitted_from_slot:
  assumes "GetRecommendations s eventID (Inr recommendations)"
    and "fetched s eventID event timeSlots allAvailabilities users"
    and "r \<in> set recommendations"
  obtains slot where "slot \<in> set timeSlots"
    and "recommend_slot (availabilityMap_of allAvailabilities) users (DurationMinutes event) slot
           = Some r"
  using sort_Slice_set [OF GetRecommendations_InrD [OF assms(1,2)]] assms(3)
  by (auto simp: slot_loop_set)

lemma recommend_slot_users_empty: "recommend_slot m [] d slot = None"
proof (cases "recommend_slot m [] d slot")
  case None
  then show ?thesis .
next
  case (Some r)
  show ?thesis
  proof (rule recommend_slot_best [OF Some])
    fix t0
    assume "0 < length (matchingUsers_at m [] d t0)"
    then show ?thesis by (simp add: matchingUsers_at_eq)
  qed
qed


lemma slot_loop_users_empty: "slot_loop m [] d timeSlots = []"
  by (induction timeSlots) (simp_all add: recommend_slot_users_empty)

lemma sort_Slice_total: "\<exists>ys. sort_Slice less_percentage xs ys"
proof -
  let ?ys = "rev (sort_key MatchingPercentage xs)"
  have "sorted_wrt (\<lambda>a b. MatchingPercentage a \<le> MatchingPercentage b)
          (sort_key MatchingPercentage xs)"
    using sorted_sort_key [of MatchingPercentage xs] by (simp add: sorted_map)
  then have "sorted_wrt (\<lambda>a b. \<not> less_percentage b a) ?ys"
    by (simp add: sorted_wrt_rev less_percentage_def not_less)
  moreover have "mset ?ys = mset xs" by simp
  ultimately show ?thesis
    unfolding sort_Slice_def by blast
qed

section \<open>The two runs, evaluated\<close>

lemmas ex_defs =
  clock_def ex_userA_def ex_userB_def ex_userC_def ex_event_def ex_slot_def ex_avail_def
  ex_timeSlots_def ex_availabilities_def ex_users_def ex_service_def ex_rec1_def ex_rec3_def

lemmas tie_defs =
  tie_slot_def tie_timeSlots_def tie_availabilities_def tie_users_def tie_service_def
  tie_rec_def tie_produced_def tie_returned_def

lemmas run_defs =
  Minute_def minDuration_def maxDuration_def wrap64_def Sub_def Minutes_def
  availabilityMap_of_eq matchingUsers_at_def nonMatchingUsers_at_def endTime_of_def
  maxStartTime_of_def too_short_def recommend_slot_def walk_def try_start_def no_best_def
  candidates.simps Let_def

lemma ex_loop:
  "slot_loop (availabilityMap_of ex_availabilities) ex_users 60 ex_timeSlots = [ex_rec1, ex_rec3]"
  by (simp add: ex_defs run_defs)

lemma ex_fetched:
  "fetched ex_service 1 (ex_event 1 60) ex_timeSlots ex_availabilities ex_users"
  by (simp add: fetched_def ex_service_def)

lemma ex_fetched2: "fetched ex_service 2 (ex_event 2 30) ex_timeSlots [] []"
  by (simp add: fetched_def ex_service_def)

lemma ex_run: "GetRecommendations ex_service 1 (Inr [ex_rec1, ex_rec3])"
proof -
  have "sort_Slice less_percentage [ex_rec1, ex_rec3] [ex_rec1, ex_rec3]"
    by (simp add: sort_Slice_def less_percentage_def ex_rec1_def ex_rec3_def)
  then show ?thesis
    using ex_loop by (simp add: GetRecommendations_def ex_service_def ex_event_def)
qed

lemma ex_slot1_rec:
  "recommend_slot (availabilityMap_of ex_availabilities) ex_users 60
     (ex_slot 1 (clock 10 0) (clock 12 0)) = Some ex_rec1"
  by (simp add: ex_defs run_defs)

lemma ex_candidates1:
  "candidates (clock 10 0) (maxStartTime_of 60 (ex_slot 1 (clock 10 0) (clock 12 0)))
     = [clock 10 0, clock 10 15, clock 10 30, clock 10 45, clock 11 0]"
  by (simp add: ex_defs run_defs)

lemma tie_loop:
  "slot_loop (availabilityMap_of tie_availabilities) tie_users 60 tie_timeSlots = tie_produced"
  by (simp add: tie_defs ex_defs run_defs)

lemma tie_fetched:
  "fetched tie_service 1 (ex_event 1 60) tie_timeSlots tie_availabilities tie_users"
  by (simp add: fetched_def tie_service_def)

lemma tie_sorted: "sort_Slice less_percentage tie_produced tie_returned"
  by (simp add: sort_Slice_def less_percentage_def tie_produced_def tie_returned_def tie_rec_def)

lemma tie_run: "GetRecommendations tie_service 1 (Inr tie_returned)"
  using tie_sorted tie_loop
  by (simp add: GetRecommendations_def tie_service_def ex_event_def)

section \<open>The properties\<close>

text \<open>
  In what follows \<open>recommendations\<close> is any list the call can return, and \<open>event\<close>,
  \<open>timeSlots\<close>, \<open>allAvailabilities\<close> and \<open>users\<close> are what the four collaborator calls
  returned. \<open>users\<close> is the list the query \<open>FindAllUsersByEvent\<close> yields: the users that
  have an availability record for the event.
\<close>

subsection \<open>C1\<close>

text \<open>
  C1. A slot whose span, end minus start, is less than the event's duration in minutes
  is the slot of no recommendation in the result, whatever the availabilities and the
  users are.
\<close>

theorem C1_short_slot_excluded:
  assumes "GetRecommendations s eventID (Inr recommendations)"
    and "fetched s eventID event timeSlots allAvailabilities users"
    and "TimeSlot.EndTime slot - TimeSlot.StartTime slot < DurationMinutes event * Minute"
  shows "slot \<notin> TimeSlot ` set recommendations"
proof
  let ?m = "availabilityMap_of allAvailabilities" and ?d = "DurationMinutes event"
  assume "slot \<in> TimeSlot ` set recommendations"
  then obtain r where r: "r \<in> set recommendations" and slot: "TimeSlot r = slot" by auto
  from emitted_from_slot [OF assms(1,2) r] obtain slot' where
    some: "recommend_slot ?m users ?d slot' = Some r" by blast
  have "slot' = slot"
    using slot by (simp add: recommend_slot_SomeD(3) [OF some])
  with some have some': "recommend_slot ?m users ?d slot = Some r" by simp
  have "?d * Minute \<le> maxDuration"
    using recommend_slot_SomeD(1) [OF some'] by (rule not_too_short_product)
  with assms(3) have "maxStartTime_of ?d slot < TimeSlot.StartTime slot"
    by (rule short_span_no_start)
  then have "walk ?m users ?d slot = no_best"
    by (rule walk_empty)
  with recommend_slot_SomeD(2) [OF some'] show False
    by (simp add: no_best_def)
qed

text \<open>In the run of event 1 the slot from 13:00 to 13:30 is left out.\<close>

theorem C1_witness:
  "GetRecommendations ex_service 1 (Inr [ex_rec1, ex_rec3])
   \<and> fetched ex_service 1 (ex_event 1 60) ex_timeSlots ex_availabilities ex_users
   \<and> TimeSlot.EndTime (ex_slot 2 (clock 13 0) (clock 13 30))
       - TimeSlot.StartTime (ex_slot 2 (clock 13 0) (clock 13 30))
       < DurationMinutes (ex_event 1 60) * Minute
   \<and> ex_slot 2 (clock 13 0) (clock 13 30) \<in> set ex_timeSlots
   \<and> ex_slot 2 (clock 13 0) (clock 13 30) \<notin> TimeSlot ` set [ex_rec1, ex_rec3]"
proof -
  have short: "TimeSlot.EndTime (ex_slot 2 (clock 13 0) (clock 13 30))
       - TimeSlot.StartTime (ex_slot 2 (clock 13 0) (clock 13 30))
       < DurationMinutes (ex_event 1 60) * Minute"
    by (simp add: ex_slot_def ex_event_def clock_def Minute_def)
  have mem: "ex_slot 2 (clock 13 0) (clock 13 30) \<in> set ex_timeSlots"
    by (simp add: ex_timeSlots_def)
  from C1_short_slot_excluded [OF ex_run ex_fetched short] ex_run ex_fetched short mem
  show ?thesis by blast
qed

subsection \<open>C2\<close>

text \<open>
  C2. At a candidate start of a slot that passed the test of line 210, for an event of
  positive duration, a user of the users list is put in the matching list exactly when one
  of the availabilities fetched for the event belongs to that user, starts no later than
  the candidate and ends no earlier than the candidate plus the duration; otherwise the
  user is put in the non-matching list. Both comparisons admit equality.
\<close>

theorem C2_attending_iff_contained:
  assumes "0 < durationMinutes"
    and "\<not> too_short durationMinutes slot"
    and "user \<in> set users"
  shows "(user \<in> set (matchingUsers_at (availabilityMap_of allAvailabilities) users
                       durationMinutes startTime)
            \<longleftrightarrow> (\<exists>avail \<in> set allAvailabilities.
                   UserID avail = User.ID user
                   \<and> UserAvailability.StartTime avail \<le> startTime
                   \<and> startTime + durationMinutes * Minute \<le> UserAvailability.EndTime avail))
       \<and> (user \<in> set (nonMatchingUsers_at (availabilityMap_of allAvailabilities) users
                         durationMinutes startTime)
            \<longleftrightarrow> \<not> (\<exists>avail \<in> set allAvailabilities.
                   UserID avail = User.ID user
                   \<and> UserAvailability.StartTime avail \<le> startTime
                   \<and> startTime + durationMinutes * Minute \<le> UserAvailability.EndTime avail))"
proof -
  have e: "endTime_of durationMinutes startTime = startTime + durationMinutes * Minute"
    using assms(2,1) by (rule not_too_short_endTime)
  have "available (availabilityMap_of allAvailabilities (User.ID user)) startTime
          (startTime + durationMinutes * Minute)
        \<longleftrightarrow> (\<exists>avail \<in> set allAvailabilities.
               UserID avail = User.ID user
               \<and> UserAvailability.StartTime avail \<le> startTime
               \<and> startTime + durationMinutes * Minute \<le> UserAvailability.EndTime avail)"
    by (auto simp: available_iff availabilityMap_of_eq)
  with assms(3) show ?thesis
    by (simp add: matchingUsers_at_eq nonMatchingUsers_at_eq e)
qed

text \<open>
  B's availability from 14:00 to 15:00 is exactly the meeting that starts at 14:00: B
  attends, A does not.
\<close>

theorem C2_witness:
  "(0::int) < 60
   \<and> \<not> too_short 60 (ex_slot 3 (clock 14 0) (clock 15 0))
   \<and> ex_userB \<in> set ex_users
   \<and> ex_userA \<in> set ex_users
   \<and> ex_avail 4 ex_userB (clock 14 0) (clock 14 0 + 60 * Minute) \<in> set ex_availabilities
   \<and> ex_userB \<in> set (matchingUsers_at (availabilityMap_of ex_availabilities) ex_users 60
                        (clock 14 0))
   \<and> ex_userA \<in> set (nonMatchingUsers_at (availabilityMap_of ex_availabilities) ex_users 60
                        (clock 14 0))"
proof -
  have pos: "(0::int) < 60" by simp
  have pass: "\<not> too_short 60 (ex_slot 3 (clock 14 0) (clock 15 0))"
    by (simp add: ex_defs run_defs)
  have b: "ex_userB \<in> set ex_users" and a: "ex_userA \<in> set ex_users"
    by (simp_all add: ex_users_def)
  have av: "ex_avail 4 ex_userB (clock 14 0) (clock 14 0 + 60 * Minute) \<in> set ex_availabilities"
    by (simp add: ex_availabilities_def clock_def)
  have inB: "\<exists>avail \<in> set ex_availabilities.
               UserID avail = User.ID ex_userB
               \<and> UserAvailability.StartTime avail \<le> clock 14 0
               \<and> clock 14 0 + 60 * Minute \<le> UserAvailability.EndTime avail"
    using av by (intro bexI [of _ "ex_avail 4 ex_userB (clock 14 0) (clock 14 0 + 60 * Minute)"])
      (simp_all add: ex_avail_def)
  have outA: "\<not> (\<exists>avail \<in> set ex_availabilities.
               UserID avail = User.ID ex_userA
               \<and> UserAvailability.StartTime avail \<le> clock 14 0
               \<and> clock 14 0 + 60 * Minute \<le> UserAvailability.EndTime avail)"
    by (simp add: ex_defs Minute_def)
  from C2_attending_iff_contained [OF pos pass b, of ex_availabilities "clock 14 0"] inB
  have "ex_userB \<in> set (matchingUsers_at (availabilityMap_of ex_availabilities) ex_users 60
                          (clock 14 0))" by blast
  moreover
  from C2_attending_iff_contained [OF pos pass a, of ex_availabilities "clock 14 0"] outA
  have "ex_userA \<in> set (nonMatchingUsers_at (availabilityMap_of ex_availabilities) ex_users 60
                          (clock 14 0))" by blast
  ultimately show ?thesis
    using pos pass a b av by blast
qed

subsection \<open>C3\<close>



subsection \<open>C4\<close>



subsection \<open>C5\<close>

text \<open>
  C5, as stated, says that the recommendations of one percentage are returned in the
  order in which the slots produced them. The thirteen-slot run refutes it: the twelve
  recommendations at 50 percent are produced in the order 0, 1, ..., 11 and returned in the
  order 6, 2, 3, 4, 5, 0, 7, ..., 11, 1.
\<close>

theorem C5_counterexample:
  "GetRecommendations tie_service 1 (Inr tie_returned)
   \<and> fetched tie_service 1 (ex_event 1 60) tie_timeSlots tie_availabilities tie_users
   \<and> filter (\<lambda>r. MatchingPercentage r = 50) tie_returned
       \<noteq> filter (\<lambda>r. MatchingPercentage r = 50)
           (slot_loop (availabilityMap_of tie_availabilities) tie_users
              (DurationMinutes (ex_event 1 60)) tie_timeSlots)"
proof -
  have "filter (\<lambda>r. MatchingPercentage r = 50) tie_returned
          \<noteq> filter (\<lambda>r. MatchingPercentage r = 50) tie_produced"
    by (simp add: tie_produced_def tie_returned_def tie_rec_def tie_slot_def ex_slot_def)
  with tie_run tie_fetched tie_loop show ?thesis
    by (simp add: ex_event_def)
qed

text \<open>
  C5, amended. The recommendations of one percentage in the returned list are the ones
  the slots produced at that percentage, each as often; their order among themselves is
  whatever \<open>sort.Slice\<close> leaves.
\<close>

theorem C5_ties_same_members:
  assumes "GetRecommendations s eventID (Inr recommendations)"
    and "fetched s eventID event timeSlots allAvailabilities users"
  shows "mset (filter (\<lambda>r. MatchingPercentage r = p) recommendations)
       = mset (filter (\<lambda>r. MatchingPercentage r = p)
                 (slot_loop (availabilityMap_of allAvailabilities) users
                    (DurationMinutes event) timeSlots))"
  using GetRecommendations_InrD [OF assms]
  by (simp add: sort_Slice_def mset_filter)

theorem C5_witness:
  "GetRecommendations tie_service 1 (Inr tie_returned)
   \<and> fetched tie_service 1 (ex_event 1 60) tie_timeSlots tie_availabilities tie_users
   \<and> mset (filter (\<lambda>r. MatchingPercentage r = 50) tie_returned)
       = mset (filter (\<lambda>r. MatchingPercentage r = 50)
                 (slot_loop (availabilityMap_of tie_availabilities) tie_users
                    (DurationMinutes (ex_event 1 60)) tie_timeSlots))"
  using C5_ties_same_members [OF tie_run tie_fetched, of 50] tie_run tie_fetched by blast

subsection \<open>C6\<close>

text \<open>
  C6. In every recommendation the matching and the non-matching users have no user in
  common, together they are the users of the users list, and the two lengths add up to the
  length of that list.
\<close>

theorem C6_partition:
  assumes "GetRecommendations s eventID (Inr recommendations)"
    and "fetched s eventID event timeSlots allAvailabilities users"
    and "r \<in> set recommendations"
  shows "set (MatchingUsers r) \<inter> set (NonMatchingUsers r) = {}
       \<and> set (MatchingUsers r) \<union> set (NonMatchingUsers r) = set users
       \<and> length (MatchingUsers r) + length (NonMatchingUsers r) = length users"
proof -
  let ?m = "availabilityMap_of allAvailabilities" and ?d = "DurationMinutes event"
  from emitted_from_slot [OF assms] obtain slot where
    some: "recommend_slot ?m users ?d slot = Some r" by blast
  show ?thesis
  proof (rule recommend_slot_best [OF some])
    fix t0 post
    assume w: "walk ?m users ?d slot = best_at ?m users ?d t0 post"
    have "MatchingUsers r = matchingUsers_at ?m users ?d t0"
      and "NonMatchingUsers r = nonMatchingUsers_at ?m users ?d t0"
      by (simp_all add: recommend_slot_SomeD(3) [OF some] w best_at_def)
    then show ?thesis
      by (simp add: matching_partition)
  qed
qed

theorem C6_witness:
  "GetRecommendations ex_service 1 (Inr [ex_rec1, ex_rec3])
   \<and> fetched ex_service 1 (ex_event 1 60) ex_timeSlots ex_availabilities ex_users
   \<and> ex_rec1 \<in> set [ex_rec1, ex_rec3]
   \<and> set (MatchingUsers ex_rec1) \<inter> set (NonMatchingUsers ex_rec1) = {}
   \<and> set (MatchingUsers ex_rec1) \<union> set (NonMatchingUsers ex_rec1) = set ex_users
   \<and> length (MatchingUsers ex_rec1) + length (NonMatchingUsers ex_rec1) = length ex_users"
proof -
  have mem: "ex_rec1 \<in> set [ex_rec1, ex_rec3]" by simp
  from C6_partition [OF ex_run ex_fetched mem] ex_run ex_fetched mem show ?thesis by blast
qed

subsection \<open>C7\<close>

text \<open>
  C7. Every start option of a recommendation is no earlier than the start of its slot,
  leaves room for the duration before the end of the slot, and lies a whole number of
  quarters of an hour after the start of the slot.
\<close>

theorem C7_start_options_in_slot:
  assumes "GetRecommendations s eventID (Inr recommendations)"
    and "fetched s eventID event timeSlots allAvailabilities users"
    and "r \<in> set recommendations"
    and "t \<in> set (StartOptions r)"
  shows "TimeSlot.StartTime (TimeSlot r) \<le> t
       \<and> t + DurationMinutes event * Minute \<le> TimeSlot.EndTime (TimeSlot r)
       \<and> (\<exists>k::nat. t = TimeSlot.StartTime (TimeSlot r) + int k * (15 * Minute))"
proof -
  let ?m = "availabilityMap_of allAvailabilities" and ?d = "DurationMinutes event"
  from emitted_from_slot [OF assms(1-3)] obtain slot where
    some: "recommend_slot ?m users ?d slot = Some r" by blast
  show ?thesis
  proof (rule recommend_slot_best [OF some])
    fix pre t0 post
    assume cs: "candidates (TimeSlot.StartTime slot) (maxStartTime_of ?d slot) = pre @ t0 # post"
      and w: "walk ?m users ?d slot = best_at ?m users ?d t0 post"
    have slot: "TimeSlot r = slot"
      by (simp add: recommend_slot_SomeD(3) [OF some])
    have "StartOptions r = t0 # filter (\<lambda>t. length (matchingUsers_at ?m users ?d t)
                                           = length (matchingUsers_at ?m users ?d t0)) post"
      by (simp add: recommend_slot_SomeD(3) [OF some] w best_at_def)
    with assms(4) have "t \<in> set (pre @ t0 # post)" by auto
    with cs have mem: "t \<in> set (candidates (TimeSlot.StartTime slot) (maxStartTime_of ?d slot))"
      by simp
    from candidates_bounds [OF mem] have le: "t \<le> maxStartTime_of ?d slot"
      and k: "\<exists>k::nat. t = TimeSlot.StartTime slot + int k * (15 * Minute)" by auto
    from maxStartTime_room [OF not_too_short_product [OF recommend_slot_SomeD(1) [OF some]], of slot] le
    have "t + ?d * Minute \<le> TimeSlot.EndTime slot" by linarith
    with candidates_lower [OF mem] k slot show ?thesis by simp
  qed
qed

theorem C7_witness:
  "GetRecommendations ex_service 1 (Inr [ex_rec1, ex_rec3])
   \<and> fetched ex_service 1 (ex_event 1 60) ex_timeSlots ex_availabilities ex_users
   \<and> ex_rec1 \<in> set [ex_rec1, ex_rec3]
   \<and> clock 10 30 \<in> set (StartOptions ex_rec1)
   \<and> TimeSlot.StartTime (TimeSlot ex_rec1) \<le> clock 10 30
   \<and> clock 10 30 + DurationMinutes (ex_event 1 60) * Minute \<le> TimeSlot.EndTime (TimeSlot ex_rec1)
   \<and> (\<exists>k::nat. clock 10 30 = TimeSlot.StartTime (TimeSlot ex_rec1) + int k * (15 * Minute))"
proof -
  have mem: "ex_rec1 \<in> set [ex_rec1, ex_rec3]" by simp
  have opt: "clock 10 30 \<in> set (StartOptions ex_rec1)" by (simp add: ex_rec1_def)
  from C7_start_options_in_slot [OF ex_run ex_fetched mem opt] ex_run ex_fetched mem opt
  show ?thesis by blast
qed

subsection \<open>C8\<close>

text \<open>
  C8, as stated, says that the call fails only when the lookup of the event fails. For
  event 3 the event is found, the fetch of the slots fails, and the call fails with that
  error.
\<close>

theorem C8_counterexample:
  "GetRecommendations ex_service 3 (Inl (ErrOther ''connection lost''))
   \<and> eventRepo_FindByID ex_service 3 = Inr (ex_event 3 45)"
  by (simp add: GetRecommendations_def ex_service_def)

text \<open>
  C8, amended. The call fails with an error exactly when that error is the one of the
  first failing call among the four fetches: the event, its slots, its availabilities, its
  users. When all four succeed the call returns a list, and when the slots or the users
  are empty the empty list is the only one it can return.
\<close>

theorem C8_failure_iff_fetch_fails:
  "(GetRecommendations s eventID (Inl err) \<longleftrightarrow>
      eventRepo_FindByID s eventID = Inl err
      \<or> \<not> isl (eventRepo_FindByID s eventID)
        \<and> (timeSlotRepo_FindByEventID s eventID = Inl err
           \<or> \<not> isl (timeSlotRepo_FindByEventID s eventID)
             \<and> (availabilityRepo_FindByEvent s eventID = Inl err
                \<or> \<not> isl (availabilityRepo_FindByEvent s eventID)
                  \<and> availabilityRepo_FindAllUsersByEvent s eventID = Inl err)))
   \<and> (fetched s eventID event timeSlots allAvailabilities users \<longrightarrow>
        (\<exists>recommendations. GetRecommendations s eventID (Inr recommendations))
        \<and> (timeSlots = [] \<or> users = [] \<longrightarrow>
             (\<forall>recommendations. GetRecommendations s eventID (Inr recommendations)
                \<longleftrightarrow> recommendations = [])))"
proof (intro conjI impI)
  show "GetRecommendations s eventID (Inl err) \<longleftrightarrow>
      eventRepo_FindByID s eventID = Inl err
      \<or> \<not> isl (eventRepo_FindByID s eventID)
        \<and> (timeSlotRepo_FindByEventID s eventID = Inl err
           \<or> \<not> isl (timeSlotRepo_FindByEventID s eventID)
             \<and> (availabilityRepo_FindByEvent s eventID = Inl err
                \<or> \<not> isl (availabilityRepo_FindByEvent s eventID)
                  \<and> availabilityRepo_FindAllUsersByEvent s eventID = Inl err))"
    by (auto simp: GetRecommendations_def split: sum.splits)
next
  assume f: "fetched s eventID event timeSlots allAvailabilities users"
  from sort_Slice_total obtain ys where
    "sort_Slice less_percentage
       (slot_loop (availabilityMap_of allAvailabilities) users (DurationMinutes event) timeSlots)
       ys" by blast
  with f have "GetRecommendations s eventID (Inr ys)"
    by (simp add: GetRecommendations_def fetched_def)
  then show "\<exists>recommendations. GetRecommendations s eventID (Inr recommendations)" ..
next
  assume f: "fetched s eventID event timeSlots allAvailabilities users"
    and e: "timeSlots = [] \<or> users = []"
  from e have "slot_loop (availabilityMap_of allAvailabilities) users (DurationMinutes event)
                 timeSlots = []"
    by (auto simp: slot_loop_users_empty)
  with f show "\<forall>recommendations. GetRecommendations s eventID (Inr recommendations)
                 \<longleftrightarrow> recommendations = []"
    by (auto simp: GetRecommendations_def fetched_def sort_Slice_def)
qed

theorem C8_witness:
  "GetRecommendations ex_service 3 (Inl (ErrOther ''connection lost''))
   \<and> \<not> isl (eventRepo_FindByID ex_service 3)
   \<and> timeSlotRepo_FindByEventID ex_service 3 = Inl (ErrOther ''connection lost'')
   \<and> GetRecommendations ex_service 4 (Inl ErrRecordNotFound)
   \<and> eventRepo_FindByID ex_service 4 = Inl ErrRecordNotFound
   \<and> fetched ex_service 2 (ex_event 2 30) ex_timeSlots [] []
   \<and> GetRecommendations ex_service 2 (Inr [])
   \<and> \<not> GetRecommendations ex_service 2 (Inr [ex_rec1])"
proof -
  have ok3: "\<not> isl (eventRepo_FindByID ex_service 3)"
    and ts3: "timeSlotRepo_FindByEventID ex_service 3 = Inl (ErrOther ''connection lost'')"
    and ev4: "eventRepo_FindByID ex_service 4 = Inl ErrRecordNotFound"
    by (simp_all add: ex_service_def)
  note c3 = C8_failure_iff_fetch_fails
    [of ex_service 3 "ErrOther ''connection lost''", THEN conjunct1]
  note c4 = C8_failure_iff_fetch_fails [of ex_service 4 ErrRecordNotFound, THEN conjunct1]
  note c2 = C8_failure_iff_fetch_fails
    [of ex_service 2 _ "ex_event 2 30" ex_timeSlots "[]" "[]", THEN conjunct2, rule_format,
     OF ex_fetched2, THEN conjunct2]
  from c3 ok3 ts3 have r3: "GetRecommendations ex_service 3 (Inl (ErrOther ''connection lost''))"
    by blast
  from c4 ev4 have r4: "GetRecommendations ex_service 4 (Inl ErrRecordNotFound)"
    by blast
  from c2 have r2: "GetRecommendations ex_service 2 (Inr [])"
    and n2: "\<not> GetRecommendations ex_service 2 (Inr [ex_rec1])"
    by simp_all
  from r3 ok3 ts3 r4 ev4 ex_fetched2 r2 n2 show ?thesis by blast
qed

subsection \<open>C9\<close>

text \<open>
  C9. The matching and non-matching users of a recommendation are those of a candidate
  start \<open>t0\<close> of its slot whose count of matching users no candidate exceeds and every
  earlier candidate falls short of; the start options are the candidates that reach this
  count, in the order of the walk. A later candidate with the same count adds its instant
  and nothing else.
\<close>

theorem C9_earliest_best:
  assumes "GetRecommendations s eventID (Inr recommendations)"
    and "fetched s eventID event timeSlots allAvailabilities users"
    and "r \<in> set recommendations"
  shows "\<exists>t0 \<in> set (candidates (TimeSlot.StartTime (TimeSlot r))
                     (maxStartTime_of (DurationMinutes event) (TimeSlot r))).
           (\<forall>t \<in> set (candidates (TimeSlot.StartTime (TimeSlot r))
                        (maxStartTime_of (DurationMinutes event) (TimeSlot r))).
              length (matchingUsers_at (availabilityMap_of allAvailabilities) users
                        (DurationMinutes event) t)
              \<le> length (matchingUsers_at (availabilityMap_of allAvailabilities) users
                          (DurationMinutes event) t0)
              \<and> (t < t0 \<longrightarrow>
                   length (matchingUsers_at (availabilityMap_of allAvailabilities) users
                             (DurationMinutes event) t)
                   < length (matchingUsers_at (availabilityMap_of allAvailabilities) users
                               (DurationMinutes event) t0)))
           \<and> MatchingUsers r
               = matchingUsers_at (availabilityMap_of allAvailabilities) users
                   (DurationMinutes event) t0
           \<and> NonMatchingUsers r
               = nonMatchingUsers_at (availabilityMap_of allAvailabilities) users
                   (DurationMinutes event) t0
           \<and> StartOptions r
               = filter (\<lambda>t. length (matchingUsers_at (availabilityMap_of allAvailabilities)
                                       users (DurationMinutes event) t)
                             = length (matchingUsers_at (availabilityMap_of allAvailabilities)
                                         users (DurationMinutes event) t0))
                   (candidates (TimeSlot.StartTime (TimeSlot r))
                      (maxStartTime_of (DurationMinutes event) (TimeSlot r)))"
proof -
  let ?m = "availabilityMap_of allAvailabilities" and ?d = "DurationMinutes event"
  let ?n = "\<lambda>t. length (matchingUsers_at ?m users ?d t)"
  from emitted_from_slot [OF assms] obtain slot where
    some: "recommend_slot ?m users ?d slot = Some r" by blast
  have slot: "TimeSlot r = slot"
    by (simp add: recommend_slot_SomeD(3) [OF some])
  let ?cs = "candidates (TimeSlot.StartTime slot) (maxStartTime_of ?d slot)"
  show ?thesis
  proof (rule recommend_slot_best [OF some])
    fix pre t0 post
    assume cs: "?cs = pre @ t0 # post"
      and pre: "\<forall>t \<in> set pre. ?n t < ?n t0"
      and post: "\<forall>t \<in> set post. ?n t \<le> ?n t0"
      and w: "walk ?m users ?d slot = best_at ?m users ?d t0 post"
    have "sorted_wrt (<) (pre @ t0 # post)"
      using candidates_sorted [of "TimeSlot.StartTime slot" "maxStartTime_of ?d slot"] cs
      by simp
    then have later: "\<forall>t \<in> set post. t0 < t"
      by (simp add: sorted_wrt_append)
    have max: "\<forall>t \<in> set ?cs. ?n t \<le> ?n t0 \<and> (t < t0 \<longrightarrow> ?n t < ?n t0)"
    proof
      fix t assume "t \<in> set ?cs"
      with cs have "t \<in> set pre \<or> t = t0 \<or> t \<in> set post" by auto
      then show "?n t \<le> ?n t0 \<and> (t < t0 \<longrightarrow> ?n t < ?n t0)"
        using pre post later by (auto simp: less_imp_le)
    qed
    have "filter (\<lambda>t. ?n t = ?n t0) pre = []"
      using pre by (auto simp: filter_empty_conv)
    then have opts: "filter (\<lambda>t. ?n t = ?n t0) ?cs = t0 # filter (\<lambda>t. ?n t = ?n t0) post"
      by (simp add: cs)
    have "MatchingUsers r = matchingUsers_at ?m users ?d t0"
      and "NonMatchingUsers r = nonMatchingUsers_at ?m users ?d t0"
      and "StartOptions r = filter (\<lambda>t. ?n t = ?n t0) ?cs"
      by (simp_all add: recommend_slot_SomeD(3) [OF some] w best_at_def opts)
    moreover have "t0 \<in> set ?cs" by (simp add: cs)
    ultimately show ?thesis
      unfolding slot using max by blast
  qed
qed

text \<open>
  In the first slot of event 1 the starts 10:00 and 10:30 both have two matching users,
  B and C at 10:00, A and B at 10:30: the recommendation keeps B and C and lists both
  starts.
\<close>

theorem C9_witness:
  "GetRecommendations ex_service 1 (Inr [ex_rec1, ex_rec3])
   \<and> fetched ex_service 1 (ex_event 1 60) ex_timeSlots ex_availabilities ex_users
   \<and> ex_rec1 \<in> set [ex_rec1, ex_rec3]
   \<and> MatchingUsers ex_rec1
       = matchingUsers_at (availabilityMap_of ex_availabilities) ex_users 60 (clock 10 0)
   \<and> NonMatchingUsers ex_rec1
       = nonMatchingUsers_at (availabilityMap_of ex_availabilities) ex_users 60 (clock 10 0)
   \<and> matchingUsers_at (availabilityMap_of ex_availabilities) ex_users 60 (clock 10 30)
       = [ex_userA, ex_userB]
   \<and> MatchingUsers ex_rec1 = [ex_userB, ex_userC]
   \<and> StartOptions ex_rec1 = [clock 10 0, clock 10 30]"
proof -
  let ?n = "\<lambda>t. length (matchingUsers_at (availabilityMap_of ex_availabilities) ex_users 60 t)"
  have mem: "ex_rec1 \<in> set [ex_rec1, ex_rec3]" by simp
  have slot: "TimeSlot ex_rec1 = ex_slot 1 (clock 10 0) (clock 12 0)"
    and d: "DurationMinutes (ex_event 1 60) = 60"
    and st: "TimeSlot.StartTime (ex_slot 1 (clock 10 0) (clock 12 0)) = clock 10 0"
    by (simp_all add: ex_rec1_def ex_event_def ex_slot_def)
  have n: "?n (clock 10 0) = 2" "?n (clock 10 15) = 1" "?n (clock 10 30) = 2"
    "?n (clock 10 45) = 1" "?n (clock 11 0) = 1"
    by (simp_all add: ex_defs run_defs)
  have lt: "clock 10 0 < clock 10 15" "clock 10 0 < clock 10 30" "clock 10 0 < clock 10 45"
    "clock 10 0 < clock 11 0"
    by (simp_all add: clock_def Minute_def)
  from C9_earliest_best [OF ex_run ex_fetched mem]
  obtain t0 where t0: "t0 \<in> set [clock 10 0, clock 10 15, clock 10 30, clock 10 45, clock 11 0]"
    and first: "\<forall>t \<in> set [clock 10 0, clock 10 15, clock 10 30, clock 10 45, clock 11 0].
                  ?n t \<le> ?n t0 \<and> (t < t0 \<longrightarrow> ?n t < ?n t0)"
    and m: "MatchingUsers ex_rec1
              = matchingUsers_at (availabilityMap_of ex_availabilities) ex_users 60 t0"
    and nm: "NonMatchingUsers ex_rec1
              = nonMatchingUsers_at (availabilityMap_of ex_availabilities) ex_users 60 t0"
    unfolding slot d st ex_candidates1 by blast
  from first have "?n (clock 10 0) \<le> ?n t0 \<and> (clock 10 0 < t0 \<longrightarrow> ?n (clock 10 0) < ?n t0)"
    by simp
  with t0 n lt have "t0 = clock 10 0" by auto
  with m nm have "MatchingUsers ex_rec1
       = matchingUsers_at (availabilityMap_of ex_availabilities) ex_users 60 (clock 10 0)"
    and "NonMatchingUsers ex_rec1
       = nonMatchingUsers_at (availabilityMap_of ex_availabilities) ex_users 60 (clock 10 0)"
    by simp_all
  moreover have "matchingUsers_at (availabilityMap_of ex_availabilities) ex_users 60 (clock 10 30)
       = [ex_userA, ex_userB]"
    by (simp add: ex_defs run_defs)
  moreover have "MatchingUsers ex_rec1 = [ex_userB, ex_userC]"
    and "StartOptions ex_rec1 = [clock 10 0, clock 10 30]"
    by (simp_all add: ex_rec1_def)
  ultimately show ?thesis
    using ex_run ex_fetched mem by blast
qed

subsection \<open>C10\<close>

text \<open>
  C10. The division of line 257 is reached exactly when a slot yields a recommendation.
  Then the best matching list is not empty and is no longer than the users list, so the
  divisor, the number of users, is positive.
\<close>

theorem C10_denominator_positive:
  assumes "recommend_slot availabilityMap users durationMinutes slot = Some r"
  shows "0 < length (bestMatchingUsers (walk availabilityMap users durationMinutes slot))
       \<and> length (bestMatchingUsers (walk availabilityMap users durationMinutes slot))
           \<le> length users
       \<and> 0 < length users
       \<and> (of_nat (length users) :: rat) \<noteq> 0"
proof (rule recommend_slot_best [OF assms])
  fix t0 post
  assume pos: "0 < length (matchingUsers_at availabilityMap users durationMinutes t0)"
    and w: "walk availabilityMap users durationMinutes slot
              = best_at availabilityMap users durationMinutes t0 post"
  have le: "length (matchingUsers_at availabilityMap users durationMinutes t0) \<le> length users"
    by (simp add: matchingUsers_at_eq)
  have b: "bestMatchingUsers (walk availabilityMap users durationMinutes slot)
             = matchingUsers_at availabilityMap users durationMinutes t0"
    by (simp add: w best_at_def)
  from pos le have "0 < length users" by linarith
  with pos le show ?thesis
    unfolding b by auto
qed

theorem C10_witness:
  "recommend_slot (availabilityMap_of ex_availabilities) ex_users 60
     (ex_slot 1 (clock 10 0) (clock 12 0)) = Some ex_rec1
   \<and> 0 < length (bestMatchingUsers (walk (availabilityMap_of ex_availabilities) ex_users 60
                    (ex_slot 1 (clock 10 0) (clock 12 0))))
   \<and> length (bestMatchingUsers (walk (availabilityMap_of ex_availabilities) ex_users 60
                (ex_slot 1 (clock 10 0) (clock 12 0))))
       \<le> length ex_users
   \<and> 0 < length ex_users
   \<and> (of_nat (length ex_users) :: rat) \<noteq> 0"
  using C10_denominator_positive [OF ex_slot1_rec] ex_slot1_rec by blast

end
